theory Spec2Isabelle
  imports Main "HOL-Library.Word"
begin

unbundle bit_operations_syntax

section \<open>Constants of light.h\<close>

text \<open>
  \<^verbatim>\<open>NUM_DEVICES\<close>, \<^verbatim>\<open>WIDTH\<close> and \<^verbatim>\<open>HEIGHT\<close> are array sizes and loop bounds; where
  the source compares them with a C \<^verbatim>\<open>int\<close> they are read through \<open>int\<close>.
\<close>

definition NUM_DEVICES :: nat where
  "NUM_DEVICES = 4"

definition WIDTH :: nat where
  "WIDTH = 32"

definition HEIGHT :: nat where
  "HEIGHT = 8"

definition REG_NOOP :: "8 word" where
  "REG_NOOP = 0x00"

definition REG_DIGIT0 :: "8 word" where
  "REG_DIGIT0 = 0x01"

definition REG_DECODE :: "8 word" where
  "REG_DECODE = 0x09"

definition REG_INTENSITY :: "8 word" where
  "REG_INTENSITY = 0x0A"

definition REG_SCANLIMIT :: "8 word" where
  "REG_SCANLIMIT = 0x0B"

definition REG_SHUTDOWN :: "8 word" where
  "REG_SHUTDOWN = 0x0C"

definition REG_DISPLAYTEST :: "8 word" where
  "REG_DISPLAYTEST = 0x0F"

section \<open>Driver state and the bus\<close>

text \<open>
  The file-level variables of light.h, together with the record of what has been handed
  to \<^verbatim>\<open>write(2)\<close>: \<open>spi_log\<close> holds the buffer of every call made so far, oldest first.
  The animation cursor is a C \<^verbatim>\<open>int\<close>; it is modelled as \<open>int\<close>, and the cursor theorem
  bounds it far below \<open>2 ^ 31\<close> on every run from the initial state.
\<close>

record driver =
  spi_fd :: int
  cur_light_x :: int
  cur_light_y :: int
  fb :: "32 word list"
  spi_log :: "8 word list list"

text \<open>
  The kernel side of \<^verbatim>\<open>write(spi_fd, tx, sizeof(tx))\<close>: from the descriptor, the buffers
  of the earlier calls and the buffer of this call, the count that the call returns
  (\<open>-1\<close> on error, otherwise the number of bytes transferred).
\<close>

type_synonym spidev = "int \<Rightarrow> 8 word list list \<Rightarrow> 8 word list \<Rightarrow> int"

definition spi_write :: "spidev \<Rightarrow> 8 word list \<Rightarrow> driver \<Rightarrow> int \<times> driver" where
  "spi_write dev tx s =
     (dev (spi_fd s) (spi_log s) tx, s\<lparr>spi_log := spi_log s @ [tx]\<rparr>)"

section \<open>Register protocol\<close>

text \<open>
  The body of the \<^verbatim>\<open>for\<close> loop of \<^verbatim>\<open>max7219_broadcast\<close>, from index \<open>i\<close> on. The array
  \<^verbatim>\<open>tx\<close> is not initialised in the source; the loop writes every cell of it.
\<close>

function broadcast_fill :: "nat \<Rightarrow> 8 word \<Rightarrow> 8 word \<Rightarrow> 8 word list \<Rightarrow> 8 word list" where
  "broadcast_fill i reg data tx =
     (if i < NUM_DEVICES
      then broadcast_fill (i + 1) reg data (tx[i * 2 + 0 := reg, i * 2 + 1 := data])
      else tx)"
  by pat_completeness auto
termination
  by (relation "measure (\<lambda>(i, reg, data, tx). NUM_DEVICES - i)") auto

declare broadcast_fill.simps [simp del]

definition max7219_broadcast :: "spidev \<Rightarrow> 8 word \<Rightarrow> 8 word \<Rightarrow> driver \<Rightarrow> int \<times> driver" where
  "max7219_broadcast dev reg data s =
     (let tx = broadcast_fill 0 reg data (replicate (NUM_DEVICES * 2) 0);
          (n, s') = spi_write dev tx s
      in if n \<noteq> int (NUM_DEVICES * 2) then (- 1, s') else (0, s'))"

text \<open>The loop of \<^verbatim>\<open>max7219_send_row\<close>, from device \<open>d\<close> on.\<close>

function send_row_fill :: "nat \<Rightarrow> int \<Rightarrow> 8 word list \<Rightarrow> 8 word list \<Rightarrow> 8 word list" where
  "send_row_fill d digit_1to8 dev_data tx =
     (if d < NUM_DEVICES
      then (let chain_index = (NUM_DEVICES - 1) - d
            in send_row_fill (d + 1) digit_1to8 dev_data
                 (tx[chain_index * 2 + 0 := word_of_int digit_1to8,
                     chain_index * 2 + 1 := dev_data ! d]))
      else tx)"
  by pat_completeness auto
termination
  by (relation "measure (\<lambda>(d, digit, dev_data, tx). NUM_DEVICES - d)") auto

declare send_row_fill.simps [simp del]

definition max7219_send_row :: "spidev \<Rightarrow> int \<Rightarrow> 8 word list \<Rightarrow> driver \<Rightarrow> int \<times> driver" where
  "max7219_send_row dev digit_1to8 dev_data s =
     (if digit_1to8 < 1 \<or> digit_1to8 > 8 then (- 1, s)
      else (let tx = send_row_fill 0 digit_1to8 dev_data (replicate (NUM_DEVICES * 2) 0);
                (n, s') = spi_write dev tx s
            in if n \<noteq> int (NUM_DEVICES * 2) then (- 1, s') else (0, s')))"

text \<open>The clearing loop of \<^verbatim>\<open>max7219_init\<close>, from \<open>row\<close> on.\<close>

function init_clear :: "spidev \<Rightarrow> nat \<Rightarrow> driver \<Rightarrow> int \<times> driver" where
  "init_clear dev row s =
     (if row \<le> 8
      then (let zeros = [0, 0, 0, 0];
                (r, s') = max7219_send_row dev (int row) zeros s
            in if r < 0 then (- 1, s') else init_clear dev (row + 1) s')
      else (0, s))"
  by pat_completeness auto
termination
  by (relation "measure (\<lambda>(dev, row, s). 9 - row)") auto

declare init_clear.simps [simp del]

definition max7219_init :: "spidev \<Rightarrow> 8 word \<Rightarrow> driver \<Rightarrow> int \<times> driver" where
  "max7219_init dev intensity_0to15 s =
     (let intensity = (if intensity_0to15 > 15 then 15 else intensity_0to15);
          (r1, s1) = max7219_broadcast dev REG_DISPLAYTEST 0x00 s
      in if r1 < 0 then (- 1, s1) else
      let (r2, s2) = max7219_broadcast dev REG_DECODE 0x00 s1
      in if r2 < 0 then (- 1, s2) else
      let (r3, s3) = max7219_broadcast dev REG_SCANLIMIT 0x07 s2
      in if r3 < 0 then (- 1, s3) else
      let (r4, s4) = max7219_broadcast dev REG_INTENSITY intensity s3
      in if r4 < 0 then (- 1, s4) else
      let (r5, s5) = max7219_broadcast dev REG_SHUTDOWN 0x01 s4
      in if r5 < 0 then (- 1, s5) else
      init_clear dev 1 s5)"

section \<open>Framebuffer\<close>

function fb_clear_from :: "nat \<Rightarrow> driver \<Rightarrow> driver" where
  "fb_clear_from y s =
     (if y < HEIGHT then fb_clear_from (y + 1) (s\<lparr>fb := (fb s)[y := 0]\<rparr>) else s)"
  by pat_completeness auto
termination
  by (relation "measure (\<lambda>(y, s). HEIGHT - y)") auto

declare fb_clear_from.simps [simp del]

definition fb_clear :: "driver \<Rightarrow> driver" where
  "fb_clear s = fb_clear_from 0 s"

text \<open>
  \<^verbatim>\<open>fb_set_pixel\<close> returns \<^verbatim>\<open>void\<close>: its whole effect is the new state. The argument
  \<open>on\<close> is a C truth value, anything but 0 meaning true.
\<close>

definition fb_set_pixel :: "int \<Rightarrow> int \<Rightarrow> int \<Rightarrow> driver \<Rightarrow> driver" where
  "fb_set_pixel x y on s =
     (if x < 0 \<or> x \<ge> int WIDTH \<or> y < 0 \<or> y \<ge> int HEIGHT then s
      else (let mask = push_bit (nat x) (1 :: 32 word)
            in if on \<noteq> 0
               then s\<lparr>fb := (fb s)[nat y := (fb s ! nat y) OR mask]\<rparr>
               else s\<lparr>fb := (fb s)[nat y := (fb s ! nat y) AND NOT mask]\<rparr>))"

section \<open>Flush\<close>

text \<open>The innermost loop of \<^verbatim>\<open>fb_flush\<close>: the byte \<open>b\<close> of device \<open>d\<close>, from bit
  \<open>bit_i\<close> on (the source's loop variable \<^verbatim>\<open>bit\<close>).\<close>

function flush_bits :: "32 word \<Rightarrow> nat \<Rightarrow> nat \<Rightarrow> 8 word \<Rightarrow> 8 word" where
  "flush_bits row d bit_i b =
     (if bit_i < 8
      then (let x = d * 8 + bit_i;
                on = drop_bit x row AND 1
            in flush_bits row d (bit_i + 1)
                 (b OR ucast (if on \<noteq> 0 then push_bit bit_i (1 :: 32 word) else 0)))
      else b)"
  by pat_completeness auto
termination
  by (relation "measure (\<lambda>(row, d, bit_i, b). 8 - bit_i)") auto

declare flush_bits.simps [simp del]

text \<open>The loop over the devices, for one row value.\<close>

function flush_devs :: "32 word \<Rightarrow> nat \<Rightarrow> 8 word list \<Rightarrow> 8 word list" where
  "flush_devs row d dev_bytes =
     (if d < NUM_DEVICES
      then flush_devs row (d + 1) (dev_bytes[d := flush_bits row d 0 0])
      else dev_bytes)"
  by pat_completeness auto
termination
  by (relation "measure (\<lambda>(row, d, dev_bytes). NUM_DEVICES - d)") auto

declare flush_devs.simps [simp del]

text \<open>The loop over the rows, from \<open>y\<close> on.\<close>

function flush_rows :: "spidev \<Rightarrow> nat \<Rightarrow> driver \<Rightarrow> int \<times> driver" where
  "flush_rows dev y s =
     (if y < HEIGHT
      then (let dev_bytes = flush_devs (fb s ! y) 0 [0, 0, 0, 0];
                (r, s') = max7219_send_row dev (int y + 1) dev_bytes s
            in if r < 0 then (- 1, s') else flush_rows dev (y + 1) s')
      else (0, s))"
  by pat_completeness auto
termination
  by (relation "measure (\<lambda>(dev, y, s). HEIGHT - y)") auto

declare flush_rows.simps [simp del]

definition fb_flush :: "spidev \<Rightarrow> driver \<Rightarrow> int \<times> driver" where
  "fb_flush dev s = flush_rows dev 0 s"

section \<open>Animation cursor\<close>

text \<open>
  \<^verbatim>\<open>next_light\<close>. The expression statement \<^verbatim>\<open>cur_light_x == 0;\<close> computes a truth value
  and drops it; it is kept as the unused binding \<open>dropped\<close>.
\<close>

definition next_light :: "spidev \<Rightarrow> driver \<Rightarrow> int \<times> driver" where
  "next_light dev s =
     (let s1 = s\<lparr>cur_light_x := cur_light_x s + 1\<rparr>;
          draw = (\<lambda>t. let t1 = fb_clear t;
                           t2 = fb_set_pixel (cur_light_x t1) (cur_light_y t1) 1 t1;
                           (r, t3) = fb_flush dev t2
                       in if r < 0 then (1, t3) else (0, t3))
      in if cur_light_x s1 > int HEIGHT
         then (let dropped = (cur_light_x s1 = 0);
                   s2 = s1\<lparr>cur_light_y := cur_light_y s1 + 1\<rparr>
               in if cur_light_y s2 > int HEIGHT then (1, s2) else draw s2)
         else draw s1)"

text \<open>
  The loop of \<^verbatim>\<open>main\<close>, \<^verbatim>\<open>while (next_light() == 0)\<close>: the state after \<open>n\<close> calls that
  all returned 0, or \<open>None\<close> when the loop has ended before.
\<close>

fun lights_after :: "spidev \<Rightarrow> nat \<Rightarrow> driver \<Rightarrow> driver option" where
  "lights_after dev 0 s = Some s"
| "lights_after dev (Suc n) s =
     (case lights_after dev n s of
        None \<Rightarrow> None
      | Some t \<Rightarrow> (let (r, t') = next_light dev t in if r = 0 then Some t' else None))"

section \<open>Bus behaviour, the initial state and the buffers of a run\<close>

text \<open>
  The bus takes every transaction of \<open>txs\<close> in full, one after the other, after the
  calls \<open>h\<close>.
\<close>

fun accepts :: "spidev \<Rightarrow> int \<Rightarrow> 8 word list list \<Rightarrow> 8 word list list \<Rightarrow> bool" where
  "accepts dev fd h [] = True"
| "accepts dev fd h (tx # txs) =
     (dev fd h tx = int (NUM_DEVICES * 2) \<and> accepts dev fd (h @ [tx]) txs)"

text \<open>
  The state a process starts in: the initialisers of the file-level variables, a zeroed
  framebuffer (static storage) and nothing written yet.
\<close>

definition driver0 :: driver where
  "driver0 = \<lparr>spi_fd = - 1, cur_light_x = 0, cur_light_y = 0,
               fb = replicate HEIGHT 0, spi_log = []\<rparr>"

text \<open>
  The buffer that one pass of the row loop of \<^verbatim>\<open>fb_flush\<close> hands to \<^verbatim>\<open>write\<close> for
  framebuffer row \<open>y\<close> holding \<open>row\<close>, and the eight buffers of a whole flush.
\<close>

definition row_tx :: "nat \<Rightarrow> 32 word \<Rightarrow> 8 word list" where
  "row_tx y row =
     send_row_fill 0 (int y + 1) (flush_devs row 0 [0, 0, 0, 0]) (replicate (NUM_DEVICES * 2) 0)"

definition flush_txs :: "driver \<Rightarrow> 8 word list list" where
  "flush_txs s = map (\<lambda>y. row_tx y (fb s ! y)) [0..<HEIGHT]"

text \<open>The buffer that the clearing loop of \<^verbatim>\<open>max7219_init\<close> sends for \<open>row\<close>.\<close>

definition zero_row :: "nat \<Rightarrow> 8 word list" where
  "zero_row row = send_row_fill 0 (int row) [0, 0, 0, 0] (replicate (NUM_DEVICES * 2) 0)"

section \<open>The transmit buffers\<close>

text \<open>
  Both fill loops overwrite all \<open>2 * NUM_DEVICES\<close> cells, so what the uninitialised
  array held before does not matter.
\<close>

lemma list8_cases:
  assumes "length (tx :: 'a list) = 8"
  obtains a b c d e f g h where "tx = [a, b, c, d, e, f, g, h]"
  using assms by (auto simp add: eval_nat_numeral length_Suc_conv)

lemma broadcast_fill_any:
  assumes "length tx = NUM_DEVICES * 2"
  shows "broadcast_fill 0 reg data tx = [reg, data, reg, data, reg, data, reg, data]"
proof -
  from assms have "length tx = 8" by (simp add: NUM_DEVICES_def)
  then obtain a b c d e f g h where "tx = [a, b, c, d, e, f, g, h]"
    by (rule list8_cases)
  then show ?thesis
    by (simp add: broadcast_fill.simps NUM_DEVICES_def eval_nat_numeral)
qed

lemma broadcast_fill_all:
  "broadcast_fill 0 reg data (replicate (NUM_DEVICES * 2) 0)
     = [reg, data, reg, data, reg, data, reg, data]"
  by (simp add: broadcast_fill_any)

lemma send_row_fill_any:
  assumes "length tx = NUM_DEVICES * 2"
  shows "send_row_fill 0 digit dev_data tx
     = [word_of_int digit, dev_data ! 3, word_of_int digit, dev_data ! 2,
        word_of_int digit, dev_data ! 1, word_of_int digit, dev_data ! 0]"
proof -
  from assms have "length tx = 8" by (simp add: NUM_DEVICES_def)
  then obtain a b c d e f g h where "tx = [a, b, c, d, e, f, g, h]"
    by (rule list8_cases)
  then show ?thesis
    by (simp add: send_row_fill.simps NUM_DEVICES_def eval_nat_numeral)
qed

lemma send_row_fill_all:
  "send_row_fill 0 digit dev_data (replicate (NUM_DEVICES * 2) 0)
     = [word_of_int digit, dev_data ! 3, word_of_int digit, dev_data ! 2,
        word_of_int digit, dev_data ! 1, word_of_int digit, dev_data ! 0]"
  by (simp add: send_row_fill_any)

lemma broadcast_eq:
  "max7219_broadcast dev reg data s
     = (if dev (spi_fd s) (spi_log s) [reg, data, reg, data, reg, data, reg, data] = 8
        then 0 else - 1,
        s\<lparr>spi_log := spi_log s @ [[reg, data, reg, data, reg, data, reg, data]]\<rparr>)"
  by (simp add: max7219_broadcast_def spi_write_def broadcast_fill_all Let_def)
     (simp add: NUM_DEVICES_def)

lemma send_row_valid:
  "1 \<le> digit \<Longrightarrow> digit \<le> 8 \<Longrightarrow>
   max7219_send_row dev digit dev_data s
     = (if dev (spi_fd s) (spi_log s)
             (send_row_fill 0 digit dev_data (replicate (NUM_DEVICES * 2) 0)) = 8
        then 0 else - 1,
        s\<lparr>spi_log := spi_log s
             @ [send_row_fill 0 digit dev_data (replicate (NUM_DEVICES * 2) 0)]\<rparr>)"
  by (simp add: max7219_send_row_def spi_write_def Let_def NUM_DEVICES_def)

lemma accepts_all:
  "(\<And>h tx. dev fd h tx = 8) \<Longrightarrow> accepts dev fd h txs"
  by (induction txs arbitrary: h) (simp_all add: NUM_DEVICES_def)

lemma driver0_rows:
  "driver0 = \<lparr>spi_fd = - 1, cur_light_x = 0, cur_light_y = 0,
               fb = [0, 0, 0, 0, 0, 0, 0, 0], spi_log = []\<rparr>"
  by (simp add: driver0_def HEIGHT_def eval_nat_numeral)

section \<open>Register protocol: broadcast and row writes\<close>

text \<open>
  C6. For every register and value, \<^verbatim>\<open>max7219_broadcast\<close> makes one call of
  \<^verbatim>\<open>write\<close>, with a buffer of \<open>2 * NUM_DEVICES\<close> bytes that is the pair (register, value)
  repeated \<open>NUM_DEVICES\<close> times, and it returns the error value \<open>-1\<close> exactly when the
  count reported by that call differs from \<open>2 * NUM_DEVICES\<close> (and 0 otherwise).
\<close>

theorem broadcast_single_write:
  "snd (max7219_broadcast dev reg data s)
     = s\<lparr>spi_log := spi_log s @ [[reg, data, reg, data, reg, data, reg, data]]\<rparr>
   \<and> length [reg, data, reg, data, reg, data, reg, data] = 2 * NUM_DEVICES
   \<and> [reg, data, reg, data, reg, data, reg, data] = concat (replicate NUM_DEVICES [reg, data])
   \<and> (fst (max7219_broadcast dev reg data s) = - 1
        \<longleftrightarrow> dev (spi_fd s) (spi_log s) [reg, data, reg, data, reg, data, reg, data]
              \<noteq> int (2 * NUM_DEVICES))
   \<and> (fst (max7219_broadcast dev reg data s) = 0
        \<longleftrightarrow> dev (spi_fd s) (spi_log s) [reg, data, reg, data, reg, data, reg, data]
              = int (2 * NUM_DEVICES))"
  by (simp add: broadcast_eq) (simp add: NUM_DEVICES_def eval_nat_numeral)

theorem broadcast_single_write_witness:
  "max7219_broadcast (\<lambda>fd h tx. 5) REG_INTENSITY 4 driver0
     = (- 1, driver0\<lparr>spi_log := [[0x0A, 4, 0x0A, 4, 0x0A, 4, 0x0A, 4]]\<rparr>)
   \<and> max7219_broadcast (\<lambda>fd h tx. 8) REG_INTENSITY 4 driver0
     = (0, driver0\<lparr>spi_log := [[0x0A, 4, 0x0A, 4, 0x0A, 4, 0x0A, 4]]\<rparr>)"
  using broadcast_single_write [of "\<lambda>fd h tx. 5" REG_INTENSITY 4 driver0]
    broadcast_single_write [of "\<lambda>fd h tx. 8" REG_INTENSITY 4 driver0]
  by (simp add: prod_eq_iff NUM_DEVICES_def REG_INTENSITY_def driver0_def)

text \<open>
  C2. For a row index in 1..8 and a data array of \<open>NUM_DEVICES\<close> bytes,
  \<^verbatim>\<open>max7219_send_row\<close> appends one buffer of \<open>2 * NUM_DEVICES\<close> bytes to what has been
  written, and in it the pair of logical device \<open>d\<close> sits at wire position
  \<open>NUM_DEVICES - 1 - d\<close>: the row index at byte \<open>2 * (NUM_DEVICES - 1 - d)\<close> and the
  device's data byte right after it.
\<close>

theorem send_row_wire_position:
  assumes "1 \<le> digit" "digit \<le> 8" "length dev_data = NUM_DEVICES" "d < NUM_DEVICES"
  shows "spi_log (snd (max7219_send_row dev digit dev_data s))
           = spi_log s @ [last (spi_log (snd (max7219_send_row dev digit dev_data s)))]
     \<and> length (last (spi_log (snd (max7219_send_row dev digit dev_data s)))) = 2 * NUM_DEVICES
     \<and> last (spi_log (snd (max7219_send_row dev digit dev_data s)))
           ! (2 * (NUM_DEVICES - 1 - d)) = word_of_int digit
     \<and> last (spi_log (snd (max7219_send_row dev digit dev_data s)))
           ! (2 * (NUM_DEVICES - 1 - d) + 1) = dev_data ! d"
proof -
  have d: "d = 0 \<or> d = 1 \<or> d = 2 \<or> d = 3"
    using assms(4) by (auto simp add: NUM_DEVICES_def)
  have l: "spi_log (snd (max7219_send_row dev digit dev_data s))
      = spi_log s @ [[word_of_int digit, dev_data ! 3, word_of_int digit, dev_data ! 2,
        word_of_int digit, dev_data ! 1, word_of_int digit, dev_data ! 0]]"
    using assms(1,2) by (simp add: send_row_valid send_row_fill_all)
  show ?thesis
    unfolding l using d by (auto simp add: NUM_DEVICES_def)
qed

theorem send_row_wire_position_witness:
  "(1::int) \<le> 3 \<and> (3::int) \<le> 8 \<and> length [0x11, 0x22, 0x33, 0x44 :: 8 word] = NUM_DEVICES
   \<and> (1::nat) < NUM_DEVICES
   \<and> spi_log (snd (max7219_send_row (\<lambda>fd h tx. 8) 3 [0x11, 0x22, 0x33, 0x44] driver0))
       = [[3, 0x44, 3, 0x33, 3, 0x22, 3, 0x11]]
   \<and> last (spi_log (snd (max7219_send_row (\<lambda>fd h tx. 8) 3 [0x11, 0x22, 0x33, 0x44] driver0)))
       ! (2 * (NUM_DEVICES - 1 - 1)) = 3
   \<and> last (spi_log (snd (max7219_send_row (\<lambda>fd h tx. 8) 3 [0x11, 0x22, 0x33, 0x44] driver0)))
       ! (2 * (NUM_DEVICES - 1 - 1) + 1) = 0x22"
  using send_row_wire_position [of 3 "[0x11, 0x22, 0x33, 0x44]" 1 "\<lambda>fd h tx. 8" driver0]
  by (simp add: NUM_DEVICES_def send_row_valid send_row_fill_any driver0_def)

text \<open>
  C7. For a row index outside 1..8, whatever the data, \<^verbatim>\<open>max7219_send_row\<close> returns
  the error value \<open>-1\<close> and leaves the state as it was: nothing has been passed to
  \<^verbatim>\<open>write\<close>.
\<close>

theorem send_row_rejects_row:
  "digit < 1 \<or> digit > 8 \<Longrightarrow> max7219_send_row dev digit dev_data s = (- 1, s)"
  by (simp add: max7219_send_row_def)

theorem send_row_rejects_row_witness:
  "((9::int) < 1 \<or> (9::int) > 8)
   \<and> max7219_send_row (\<lambda>fd h tx. 8) 9 [0, 0, 0, 0] driver0 = (- 1, driver0)
   \<and> spi_log (snd (max7219_send_row (\<lambda>fd h tx. 8) 9 [0, 0, 0, 0] driver0)) = []"
  using send_row_rejects_row [of 9 "\<lambda>fd h tx. 8" "[0, 0, 0, 0]" driver0]
  by (simp add: driver0_def)

section \<open>Initialisation\<close>

lemma zero_row_bytes:
  "zero_row row
     = [word_of_nat row, 0, word_of_nat row, 0, word_of_nat row, 0, word_of_nat row, 0]"
  by (simp add: zero_row_def send_row_fill_all)

lemma init_clear_step:
  assumes "1 \<le> row" "row \<le> 8"
  shows "init_clear dev row s =
     (if dev (spi_fd s) (spi_log s) (zero_row row) = 8
      then init_clear dev (row + 1) (s\<lparr>spi_log := spi_log s @ [zero_row row]\<rparr>)
      else (- 1, s\<lparr>spi_log := spi_log s @ [zero_row row]\<rparr>))"
proof -
  have r: "1 \<le> int row" "int row \<le> 8"
    using assms by simp_all
  show ?thesis
    using assms
    by (subst init_clear.simps) (simp add: send_row_valid [OF r] zero_row_def Let_def)
qed

lemma init_clear_done: "init_clear dev 9 s = (0, s)"
  by (subst init_clear.simps) simp

lemma init_clear_ok:
  assumes "1 \<le> row" "row \<le> 9"
    and "accepts dev (spi_fd s) (spi_log s) (map zero_row [row..<9])"
  shows "init_clear dev row s = (0, s\<lparr>spi_log := spi_log s @ map zero_row [row..<9]\<rparr>)"
  using assms
proof (induction "9 - row" arbitrary: row s)
  case 0
  then have "row = 9" by simp
  then show ?case by (simp add: init_clear_done)
next
  case (Suc m)
  then have lt: "row < 9" and le: "row \<le> 8" by simp_all
  have up: "[row..<9] = row # [row + 1..<9]"
    using lt by (simp add: upt_conv_Cons)
  let ?s' = "s\<lparr>spi_log := spi_log s @ [zero_row row]\<rparr>"
  from Suc.prems(3) have ok: "dev (spi_fd s) (spi_log s) (zero_row row) = 8"
    and rest: "accepts dev (spi_fd ?s') (spi_log ?s') (map zero_row [row + 1..<9])"
    by (simp_all add: up NUM_DEVICES_def)
  have "init_clear dev (row + 1) ?s'
          = (0, ?s'\<lparr>spi_log := spi_log ?s' @ map zero_row [row + 1..<9]\<rparr>)"
    using Suc.hyps(2) lt rest by (intro Suc.hyps(1)) simp_all
  then show ?case
    by (simp add: init_clear_step [OF Suc.prems(1) le] ok up)
qed

lemma zero_rows:
  "map zero_row [1..<9] =
     [[1, 0, 1, 0, 1, 0, 1, 0], [2, 0, 2, 0, 2, 0, 2, 0], [3, 0, 3, 0, 3, 0, 3, 0],
      [4, 0, 4, 0, 4, 0, 4, 0], [5, 0, 5, 0, 5, 0, 5, 0], [6, 0, 6, 0, 6, 0, 6, 0],
      [7, 0, 7, 0, 7, 0, 7, 0], [8, 0, 8, 0, 8, 0, 8, 0]]"
  by (simp add: zero_row_bytes upt_rec)

text \<open>
  C5. For every intensity argument, when the bus takes each of the thirteen buffers
  in full, \<^verbatim>\<open>max7219_init\<close> returns 0 having written exactly these, in this order: the
  broadcasts DISPLAYTEST = 0, DECODE = 0, SCANLIMIT = 7, INTENSITY = the argument clamped to
  15, SHUTDOWN = 1, and then for each row 1 to 8, in increasing order, one row write
  whose data bytes are all zero.
\<close>

theorem init_sequence:
  assumes "txs = [[0x0F, 0, 0x0F, 0, 0x0F, 0, 0x0F, 0],
                  [0x09, 0, 0x09, 0, 0x09, 0, 0x09, 0],
                  [0x0B, 7, 0x0B, 7, 0x0B, 7, 0x0B, 7],
                  [0x0A, min intensity 15, 0x0A, min intensity 15,
                   0x0A, min intensity 15, 0x0A, min intensity 15],
                  [0x0C, 1, 0x0C, 1, 0x0C, 1, 0x0C, 1],
                  [1, 0, 1, 0, 1, 0, 1, 0], [2, 0, 2, 0, 2, 0, 2, 0],
                  [3, 0, 3, 0, 3, 0, 3, 0], [4, 0, 4, 0, 4, 0, 4, 0],
                  [5, 0, 5, 0, 5, 0, 5, 0], [6, 0, 6, 0, 6, 0, 6, 0],
                  [7, 0, 7, 0, 7, 0, 7, 0], [8, 0, 8, 0, 8, 0, 8, 0]]"
    and "accepts dev (spi_fd s) (spi_log s) txs"
  shows "max7219_init dev intensity s = (0, s\<lparr>spi_log := spi_log s @ txs\<rparr>)"
proof -
  have m: "(if intensity > 15 then 15 else intensity) = min intensity 15"
    by (auto simp add: min_def)
  let ?s5 = "s\<lparr>spi_log := spi_log s @ take 5 txs\<rparr>"
  have "accepts dev (spi_fd ?s5) (spi_log ?s5) (map zero_row [1..<9])"
    using assms(2) unfolding assms(1) zero_rows by (simp add: NUM_DEVICES_def)
  then have c: "init_clear dev 1 ?s5
                  = (0, ?s5\<lparr>spi_log := spi_log ?s5 @ map zero_row [1..<9]\<rparr>)"
    by (intro init_clear_ok) simp_all
  show ?thesis
    using assms(2) c unfolding assms(1) zero_rows
    by (simp add: max7219_init_def broadcast_eq m NUM_DEVICES_def Let_def
        REG_DISPLAYTEST_def REG_DECODE_def REG_SCANLIMIT_def REG_INTENSITY_def REG_SHUTDOWN_def)
qed

theorem init_sequence_witness:
  "accepts (\<lambda>fd h tx. 8) (spi_fd driver0) (spi_log driver0)
     [[0x0F, 0, 0x0F, 0, 0x0F, 0, 0x0F, 0], [0x09, 0, 0x09, 0, 0x09, 0, 0x09, 0],
      [0x0B, 7, 0x0B, 7, 0x0B, 7, 0x0B, 7], [0x0A, 15, 0x0A, 15, 0x0A, 15, 0x0A, 15],
      [0x0C, 1, 0x0C, 1, 0x0C, 1, 0x0C, 1],
      [1, 0, 1, 0, 1, 0, 1, 0], [2, 0, 2, 0, 2, 0, 2, 0], [3, 0, 3, 0, 3, 0, 3, 0],
      [4, 0, 4, 0, 4, 0, 4, 0], [5, 0, 5, 0, 5, 0, 5, 0], [6, 0, 6, 0, 6, 0, 6, 0],
      [7, 0, 7, 0, 7, 0, 7, 0], [8, 0, 8, 0, 8, 0, 8, 0]]
   \<and> max7219_init (\<lambda>fd h tx. 8) 20 driver0 = (0, driver0\<lparr>spi_log :=
     [[0x0F, 0, 0x0F, 0, 0x0F, 0, 0x0F, 0], [0x09, 0, 0x09, 0, 0x09, 0, 0x09, 0],
      [0x0B, 7, 0x0B, 7, 0x0B, 7, 0x0B, 7], [0x0A, 15, 0x0A, 15, 0x0A, 15, 0x0A, 15],
      [0x0C, 1, 0x0C, 1, 0x0C, 1, 0x0C, 1],
      [1, 0, 1, 0, 1, 0, 1, 0], [2, 0, 2, 0, 2, 0, 2, 0], [3, 0, 3, 0, 3, 0, 3, 0],
      [4, 0, 4, 0, 4, 0, 4, 0], [5, 0, 5, 0, 5, 0, 5, 0], [6, 0, 6, 0, 6, 0, 6, 0],
      [7, 0, 7, 0, 7, 0, 7, 0], [8, 0, 8, 0, 8, 0, 8, 0]]\<rparr>)"
  using init_sequence [OF refl, where intensity = 20 and dev = "\<lambda>fd h tx. 8" and s = driver0]
  by (simp add: driver0_def NUM_DEVICES_def)

section \<open>Framebuffer: setting and clearing a pixel\<close>

lemma or_and_not_mask: "((w :: 32 word) OR m) AND NOT m = w AND NOT m"
  by (rule bit_eqI) (auto simp add: bit_simps)

lemma and_not_bit_id:
  assumes "n < 32"
  shows "((w :: 32 word) AND NOT (push_bit n 1) = w) \<longleftrightarrow> \<not> bit w n"
proof
  assume e: "w AND NOT (push_bit n 1) = w"
  have "\<not> bit (w AND NOT (push_bit n 1)) n"
    using assms by (simp add: bit_simps)
  then show "\<not> bit w n" using e by simp
next
  assume "\<not> bit w n"
  then show "w AND NOT (push_bit n 1) = w"
    by (intro bit_eqI) (auto simp add: bit_simps)
qed

lemma fb_clear_rows:
  assumes "length (fb s) = HEIGHT"
  shows "fb_clear s = s\<lparr>fb := [0, 0, 0, 0, 0, 0, 0, 0]\<rparr>"
proof -
  from assms have "length (fb s) = 8" by (simp add: HEIGHT_def)
  then obtain a b c d e f g h where "fb s = [a, b, c, d, e, f, g, h]"
    by (rule list8_cases)
  then show ?thesis
    by (simp add: fb_clear_def fb_clear_from.simps HEIGHT_def eval_nat_numeral)
qed

text \<open>
  C3, as stated, fails: with pixel (0,0) lit beforehand, setting and then clearing it
  leaves row 0 without that bit.
\<close>

theorem set_pixel_round_trip_counterexample:
  "fb (fb_set_pixel 0 0 0 (fb_set_pixel 0 0 1 (driver0\<lparr>fb := [1, 0, 0, 0, 0, 0, 0, 0]\<rparr>))) ! 0
     \<noteq> fb (driver0\<lparr>fb := [1, 0, 0, 0, 0, 0, 0, 0]\<rparr>) ! 0"
  by (simp add: fb_set_pixel_def WIDTH_def HEIGHT_def driver0_def)

text \<open>
  C3, amended. For every in-bounds coordinate \<open>(x, y)\<close> and every framebuffer,
  \<^verbatim>\<open>fb_set_pixel(x, y, true)\<close> followed by \<^verbatim>\<open>fb_set_pixel(x, y, false)\<close> leaves row \<open>y\<close>
  equal to its value before the two calls with bit \<open>x\<close> cleared; so the row is restored
  exactly when pixel \<open>(x, y)\<close> was off before.
\<close>

theorem set_then_clear_row:
  assumes "0 \<le> x" "x < 32" "0 \<le> y" "y < 8" "length (fb s) = 8" "on \<noteq> 0"
  shows "fb (fb_set_pixel x y 0 (fb_set_pixel x y on s)) ! nat y
           = (fb s ! nat y) AND NOT (push_bit (nat x) 1)
       \<and> (fb (fb_set_pixel x y 0 (fb_set_pixel x y on s)) ! nat y = fb s ! nat y
            \<longleftrightarrow> \<not> bit (fb s ! nat y) (nat x))"
proof -
  have a: "fb (fb_set_pixel x y 0 (fb_set_pixel x y on s)) ! nat y
           = (fb s ! nat y) AND NOT (push_bit (nat x) 1)"
    using assms by (simp add: fb_set_pixel_def WIDTH_def HEIGHT_def or_and_not_mask)
  have b: "((fb s ! nat y) AND NOT (push_bit (nat x) 1) = fb s ! nat y)
             \<longleftrightarrow> \<not> bit (fb s ! nat y) (nat x)"
    using assms(1,2) by (intro and_not_bit_id) simp
  show ?thesis using a b by simp
qed

theorem set_then_clear_row_witness:
  "(0::int) \<le> 5 \<and> (5::int) < 32 \<and> (0::int) \<le> 2 \<and> (2::int) < 8
   \<and> length (fb (driver0\<lparr>fb := [0, 0, 0x21, 0, 0, 0, 0, 0]\<rparr>)) = 8 \<and> (1::int) \<noteq> 0
   \<and> fb (fb_set_pixel 5 2 0 (fb_set_pixel 5 2 1 (driver0\<lparr>fb := [0, 0, 0x21, 0, 0, 0, 0, 0]\<rparr>)))
        ! nat 2 = 0x01
   \<and> bit (0x21 :: 32 word) 5"
  using set_then_clear_row [of 5 2 "driver0\<lparr>fb := [0, 0, 0x21, 0, 0, 0, 0, 0]\<rparr>" 1]
  by (simp add: driver0_def)

text \<open>
  C4. For every coordinate outside \<open>[0,32) \<times> [0,8)\<close> and every on/off argument,
  \<^verbatim>\<open>fb_set_pixel\<close> changes nothing: the state it returns, framebuffer included, is the
  state it was given. The function returns \<^verbatim>\<open>void\<close>, so there is no error to report.
\<close>

theorem set_pixel_out_of_range:
  "x < 0 \<or> x \<ge> 32 \<or> y < 0 \<or> y \<ge> 8 \<Longrightarrow> fb_set_pixel x y on s = s"
  by (simp add: fb_set_pixel_def WIDTH_def HEIGHT_def)

theorem set_pixel_out_of_range_witness:
  "((32::int) < 0 \<or> (32::int) \<ge> 32 \<or> (0::int) < 0 \<or> (0::int) \<ge> 8)
   \<and> fb_set_pixel 32 0 1 driver0 = driver0"
  using set_pixel_out_of_range [of 32 0 1 driver0] by simp

section \<open>Flush\<close>

text \<open>
  What the bit loop computes: bit \<open>n\<close> of the byte of device \<open>d\<close> is column
  \<open>d * 8 + n\<close> of the row, so the byte is the row shifted right by \<open>d * 8\<close> and cut to
  eight bits.
\<close>

lemma and_one_neq_0_iff: "(drop_bit x (w :: 32 word) AND 1 \<noteq> 0) \<longleftrightarrow> bit w x"
  by (simp add: and_one_eq bit_iff_odd_drop_bit odd_iff_mod_2_eq_one)

lemma bit_flush_bits:
  "bit (flush_bits row d i b) n \<longleftrightarrow> bit b n \<or> (i \<le> n \<and> n < 8 \<and> bit row (d * 8 + n))"
proof (induction row d i b rule: flush_bits.induct)
  case (1 row d i b)
  show ?case
  proof (cases "i < 8")
    case True
    have step: "bit (b OR ucast (if drop_bit (d * 8 + i) row AND 1 \<noteq> 0
                                  then push_bit i (1 :: 32 word) else 0)) n
                  \<longleftrightarrow> bit b n \<or> (n = i \<and> bit row (d * 8 + i))"
      using True by (auto simp add: and_one_neq_0_iff bit_simps)
    show ?thesis
      using True 1 [OF True refl refl]
      apply (subst flush_bits.simps)
      apply (simp add: step Let_def)
      by (metis Suc_leI not_less_eq_eq nat_less_le not_less)
  next
    case False
    then show ?thesis
      by (subst flush_bits.simps) (auto dest: bit_imp_le_length)
  qed
qed

lemma flush_bits_eq: "flush_bits row d 0 0 = ucast (drop_bit (d * 8) row)"
  by (rule bit_eqI) (auto simp add: bit_flush_bits bit_simps)

lemma flush_devs_all:
  "flush_devs row 0 [0, 0, 0, 0]
     = [ucast row, ucast (drop_bit 8 row), ucast (drop_bit 16 row), ucast (drop_bit 24 row)]"
  by (simp add: flush_devs.simps NUM_DEVICES_def flush_bits_eq)

lemma row_tx_bytes:
  "row_tx y row = [word_of_int (int y + 1), ucast (drop_bit 24 row),
                   word_of_int (int y + 1), ucast (drop_bit 16 row),
                   word_of_int (int y + 1), ucast (drop_bit 8 row),
                   word_of_int (int y + 1), ucast row]"
  by (simp add: row_tx_def send_row_fill_all flush_devs_all)

lemma flush_rows_step:
  assumes "y < HEIGHT"
  shows "flush_rows dev y s =
     (if dev (spi_fd s) (spi_log s) (row_tx y (fb s ! y)) = 8
      then flush_rows dev (y + 1) (s\<lparr>spi_log := spi_log s @ [row_tx y (fb s ! y)]\<rparr>)
      else (- 1, s\<lparr>spi_log := spi_log s @ [row_tx y (fb s ! y)]\<rparr>))"
proof -
  have r: "1 \<le> int y + 1" "int y + 1 \<le> 8"
    using assms by (simp_all add: HEIGHT_def)
  show ?thesis
    using assms
    by (subst flush_rows.simps) (simp add: send_row_valid [OF r] row_tx_def Let_def)
qed

lemma flush_rows_done: "flush_rows dev HEIGHT s = (0, s)"
  by (subst flush_rows.simps) simp

lemma flush_rows_ok:
  assumes "y \<le> HEIGHT"
    and "accepts dev (spi_fd s) (spi_log s) (map (\<lambda>j. row_tx j (fb s ! j)) [y..<HEIGHT])"
  shows "flush_rows dev y s
           = (0, s\<lparr>spi_log := spi_log s @ map (\<lambda>j. row_tx j (fb s ! j)) [y..<HEIGHT]\<rparr>)"
  using assms
proof (induction "HEIGHT - y" arbitrary: y s)
  case 0
  then have "y = HEIGHT" by simp
  then show ?case by (simp add: flush_rows_done)
next
  case (Suc m)
  then have lt: "y < HEIGHT" by simp
  have up: "[y..<HEIGHT] = y # [y + 1..<HEIGHT]"
    using lt by (simp add: upt_conv_Cons)
  let ?s' = "s\<lparr>spi_log := spi_log s @ [row_tx y (fb s ! y)]\<rparr>"
  from Suc.prems(2) have ok: "dev (spi_fd s) (spi_log s) (row_tx y (fb s ! y)) = 8"
    and rest: "accepts dev (spi_fd ?s') (spi_log ?s') (map (\<lambda>j. row_tx j (fb ?s' ! j)) [y + 1..<HEIGHT])"
    by (simp_all add: up NUM_DEVICES_def)
  have "flush_rows dev (y + 1) ?s'
          = (0, ?s'\<lparr>spi_log := spi_log ?s' @ map (\<lambda>j. row_tx j (fb ?s' ! j)) [y + 1..<HEIGHT]\<rparr>)"
    using Suc.hyps(2) lt rest by (intro Suc.hyps(1)) simp_all
  then show ?case
    by (simp add: flush_rows_step [OF lt] ok up)
qed

lemma flush_rows_fail:
  assumes "y \<le> k" "k < HEIGHT"
    and "accepts dev (spi_fd s) (spi_log s) (map (\<lambda>j. row_tx j (fb s ! j)) [y..<k])"
    and "dev (spi_fd s) (spi_log s @ map (\<lambda>j. row_tx j (fb s ! j)) [y..<k]) (row_tx k (fb s ! k)) \<noteq> 8"
  shows "flush_rows dev y s
           = (- 1, s\<lparr>spi_log := spi_log s @ map (\<lambda>j. row_tx j (fb s ! j)) [y..<Suc k]\<rparr>)"
  using assms
proof (induction "k - y" arbitrary: y s)
  case 0
  then have "y = k" by simp
  with 0 show ?case
    by (simp add: flush_rows_step)
next
  case (Suc m)
  then have lt: "y < k" and lth: "y < HEIGHT" by simp_all
  have up: "[y..<k] = y # [y + 1..<k]" "[y..<Suc k] = y # [y + 1..<Suc k]"
    using lt by (simp_all add: upt_conv_Cons del: upt_Suc)
  let ?s' = "s\<lparr>spi_log := spi_log s @ [row_tx y (fb s ! y)]\<rparr>"
  from Suc.prems(3) have ok: "dev (spi_fd s) (spi_log s) (row_tx y (fb s ! y)) = 8"
    and rest: "accepts dev (spi_fd ?s') (spi_log ?s') (map (\<lambda>j. row_tx j (fb ?s' ! j)) [y + 1..<k])"
    by (simp_all add: up NUM_DEVICES_def)
  have bad: "dev (spi_fd ?s') (spi_log ?s' @ map (\<lambda>j. row_tx j (fb ?s' ! j)) [y + 1..<k])
               (row_tx k (fb ?s' ! k)) \<noteq> 8"
    using Suc.prems(4) by (simp add: up)
  have "flush_rows dev (y + 1) ?s'
          = (- 1, ?s'\<lparr>spi_log := spi_log ?s' @ map (\<lambda>j. row_tx j (fb ?s' ! j)) [y + 1..<Suc k]\<rparr>)"
    using Suc.hyps(2) lt Suc.prems(2) rest bad by (intro Suc.hyps(1)) simp_all
  then show ?case
    by (simp add: flush_rows_step [OF lth] ok up del: upt_Suc)
qed

lemma take_flush_txs:
  "k \<le> HEIGHT \<Longrightarrow> take k (flush_txs s) = map (\<lambda>j. row_tx j (fb s ! j)) [0..<k]"
  by (simp add: flush_txs_def take_map)

lemma fb_flush_ok:
  assumes "\<And>h tx. dev (spi_fd s) h tx = 8"
  shows "fb_flush dev s = (0, s\<lparr>spi_log := spi_log s @ flush_txs s\<rparr>)"
  unfolding fb_flush_def flush_txs_def
  by (intro flush_rows_ok accepts_all assms) simp

text \<open>
  C1. The byte that \<^verbatim>\<open>fb_flush\<close> builds for a device holds its leftmost column in the
  least-significant bit, not in the most-significant one: with only column 0 of row 0 lit
  the byte of device 0 is \<open>0x01\<close>, with only column 7 it is \<open>0x80\<close>, and likewise for
  columns 24 and 31 and device 3; flushing the first of these framebuffers sends
  \<open>0x01\<close> as the last byte of the buffer for row 1.
\<close>

theorem flush_packs_lsb_first:
  "flush_devs (fb (fb_set_pixel 0 0 1 driver0) ! 0) 0 [0, 0, 0, 0] = [0x01, 0, 0, 0]
   \<and> flush_devs (fb (fb_set_pixel 7 0 1 driver0) ! 0) 0 [0, 0, 0, 0] = [0x80, 0, 0, 0]
   \<and> flush_devs (fb (fb_set_pixel 24 0 1 driver0) ! 0) 0 [0, 0, 0, 0] = [0, 0, 0, 0x01]
   \<and> flush_devs (fb (fb_set_pixel 31 0 1 driver0) ! 0) 0 [0, 0, 0, 0] = [0, 0, 0, 0x80]
   \<and> spi_log (snd (fb_flush (\<lambda>fd h tx. 8) (fb_set_pixel 0 0 1 driver0))) ! 0
       = [1, 0, 1, 0, 1, 0, 1, 0x01]"
proof -
  have f: "fb (fb_set_pixel 0 0 1 driver0) ! 0 = 1" "fb (fb_set_pixel 7 0 1 driver0) ! 0 = 0x80"
    "fb (fb_set_pixel 24 0 1 driver0) ! 0 = 0x1000000"
    "fb (fb_set_pixel 31 0 1 driver0) ! 0 = 0x80000000"
    by (simp_all add: fb_set_pixel_def driver0_def WIDTH_def HEIGHT_def)
  have l: "spi_log (snd (fb_flush (\<lambda>fd h tx. 8) (fb_set_pixel 0 0 1 driver0))) ! 0
             = row_tx 0 (fb (fb_set_pixel 0 0 1 driver0) ! 0)"
    by (simp add: fb_flush_ok flush_txs_def HEIGHT_def fb_set_pixel_def driver0_def WIDTH_def
          upt_rec [of 0])
  show ?thesis
    unfolding l f by (simp add: flush_devs_all row_tx_bytes drop_bit_eq_div)
qed

text \<open>
  C8. Let the eight row buffers of a flush be \<open>flush_txs s\<close>, the one of index \<open>k\<close>
  carrying row index \<open>k + 1\<close>. If the bus takes the first \<open>k\<close> of them in full and
  reports another count for the next, \<^verbatim>\<open>fb_flush\<close> returns \<open>-1\<close> having written
  these \<open>k + 1\<close> buffers and none after them. If the bus takes all eight, \<^verbatim>\<open>fb_flush\<close>
  returns 0 having written exactly the eight, rows 1 to 8 in order.
\<close>

theorem flush_first_error:
  "(k < HEIGHT
      \<and> accepts dev (spi_fd s) (spi_log s) (take k (flush_txs s))
      \<and> dev (spi_fd s) (spi_log s @ take k (flush_txs s)) (flush_txs s ! k) \<noteq> int (2 * NUM_DEVICES)
    \<longrightarrow> fb_flush dev s = (- 1, s\<lparr>spi_log := spi_log s @ take (k + 1) (flush_txs s)\<rparr>))
   \<and> (accepts dev (spi_fd s) (spi_log s) (flush_txs s)
    \<longrightarrow> fb_flush dev s = (0, s\<lparr>spi_log := spi_log s @ flush_txs s\<rparr>))
   \<and> length (flush_txs s) = HEIGHT
   \<and> (k < HEIGHT
    \<longrightarrow> flush_txs s ! k
          = [word_of_nat (k + 1), ucast (drop_bit 24 (fb s ! k)),
             word_of_nat (k + 1), ucast (drop_bit 16 (fb s ! k)),
             word_of_nat (k + 1), ucast (drop_bit 8 (fb s ! k)),
             word_of_nat (k + 1), ucast (fb s ! k)])"
proof (intro conjI impI)
  assume a: "k < HEIGHT
      \<and> accepts dev (spi_fd s) (spi_log s) (take k (flush_txs s))
      \<and> dev (spi_fd s) (spi_log s @ take k (flush_txs s)) (flush_txs s ! k) \<noteq> int (2 * NUM_DEVICES)"
  then have k: "k < HEIGHT" and kle: "k \<le> HEIGHT"
    and acc: "accepts dev (spi_fd s) (spi_log s) (take k (flush_txs s))"
    and bad: "dev (spi_fd s) (spi_log s @ take k (flush_txs s)) (flush_txs s ! k) \<noteq> 8"
    by (simp_all add: NUM_DEVICES_def)
  have nth: "flush_txs s ! k = row_tx k (fb s ! k)"
    using k by (simp add: flush_txs_def)
  have "flush_rows dev 0 s
          = (- 1, s\<lparr>spi_log := spi_log s @ map (\<lambda>j. row_tx j (fb s ! j)) [0..<Suc k]\<rparr>)"
    using k acc bad unfolding take_flush_txs [OF kle] nth
    by (intro flush_rows_fail) simp_all
  then show "fb_flush dev s = (- 1, s\<lparr>spi_log := spi_log s @ take (k + 1) (flush_txs s)\<rparr>)"
    using k by (simp add: fb_flush_def take_flush_txs)
next
  assume "accepts dev (spi_fd s) (spi_log s) (flush_txs s)"
  then show "fb_flush dev s = (0, s\<lparr>spi_log := spi_log s @ flush_txs s\<rparr>)"
    unfolding fb_flush_def flush_txs_def by (intro flush_rows_ok) simp_all
next
  show "length (flush_txs s) = HEIGHT" by (simp add: flush_txs_def)
next
  assume "k < HEIGHT"
  then show "flush_txs s ! k
          = [word_of_nat (k + 1), ucast (drop_bit 24 (fb s ! k)),
             word_of_nat (k + 1), ucast (drop_bit 16 (fb s ! k)),
             word_of_nat (k + 1), ucast (drop_bit 8 (fb s ! k)),
             word_of_nat (k + 1), ucast (fb s ! k)]"
    by (simp add: flush_txs_def row_tx_bytes add.commute)
qed

theorem flush_first_error_witness:
  "(2 < HEIGHT
     \<and> accepts (\<lambda>fd h tx. if length h = 2 then 3 else 8) (spi_fd driver0) (spi_log driver0)
         (take 2 (flush_txs driver0))
     \<and> (\<lambda>fd h tx. if length h = 2 then 3 else 8) (spi_fd driver0)
         (spi_log driver0 @ take 2 (flush_txs driver0)) (flush_txs driver0 ! 2)
         \<noteq> int (2 * NUM_DEVICES)
     \<and> fb_flush (\<lambda>fd h tx. if length h = 2 then 3 else 8) driver0
         = (- 1, driver0\<lparr>spi_log :=
              [[1, 0, 1, 0, 1, 0, 1, 0], [2, 0, 2, 0, 2, 0, 2, 0], [3, 0, 3, 0, 3, 0, 3, 0]]\<rparr>))
   \<and> (accepts (\<lambda>fd h tx. 8) (spi_fd driver0) (spi_log driver0) (flush_txs driver0)
     \<and> fb_flush (\<lambda>fd h tx. 8) driver0
         = (0, driver0\<lparr>spi_log :=
              [[1, 0, 1, 0, 1, 0, 1, 0], [2, 0, 2, 0, 2, 0, 2, 0], [3, 0, 3, 0, 3, 0, 3, 0],
               [4, 0, 4, 0, 4, 0, 4, 0], [5, 0, 5, 0, 5, 0, 5, 0], [6, 0, 6, 0, 6, 0, 6, 0],
               [7, 0, 7, 0, 7, 0, 7, 0], [8, 0, 8, 0, 8, 0, 8, 0]]\<rparr>))"
proof -
  have txs: "flush_txs driver0 =
      [[1, 0, 1, 0, 1, 0, 1, 0], [2, 0, 2, 0, 2, 0, 2, 0], [3, 0, 3, 0, 3, 0, 3, 0],
       [4, 0, 4, 0, 4, 0, 4, 0], [5, 0, 5, 0, 5, 0, 5, 0], [6, 0, 6, 0, 6, 0, 6, 0],
       [7, 0, 7, 0, 7, 0, 7, 0], [8, 0, 8, 0, 8, 0, 8, 0]]"
    by (simp add: flush_txs_def driver0_def HEIGHT_def row_tx_bytes upt_rec)
  show ?thesis
    using flush_first_error [of 2 "\<lambda>fd h tx. if length h = 2 then 3 else 8" driver0]
      flush_first_error [of 0 "\<lambda>fd h tx. 8" driver0]
    unfolding txs
    by (simp add: driver0_def NUM_DEVICES_def HEIGHT_def)
qed

section \<open>Animation cursor\<close>

lemma fb_clear_cursor:
  "cur_light_x (fb_clear_from y s) = cur_light_x s \<and> cur_light_y (fb_clear_from y s) = cur_light_y s"
proof (induction y s rule: fb_clear_from.induct)
  case (1 y s)
  show ?case
  proof (cases "y < HEIGHT")
    case True
    with 1 show ?thesis by (subst (1 2) fb_clear_from.simps) simp
  next
    case False
    then show ?thesis by (subst (1 2) fb_clear_from.simps) simp
  qed
qed

lemma fb_set_pixel_cursor:
  "cur_light_x (fb_set_pixel x y on s) = cur_light_x s
   \<and> cur_light_y (fb_set_pixel x y on s) = cur_light_y s"
  by (simp add: fb_set_pixel_def Let_def)

lemma send_row_cursor:
  "cur_light_x (snd (max7219_send_row dev digit dev_data s)) = cur_light_x s
   \<and> cur_light_y (snd (max7219_send_row dev digit dev_data s)) = cur_light_y s"
  by (simp add: max7219_send_row_def spi_write_def Let_def)

lemma flush_rows_cursor:
  "cur_light_x (snd (flush_rows dev y s)) = cur_light_x s
   \<and> cur_light_y (snd (flush_rows dev y s)) = cur_light_y s"
proof (induction "HEIGHT - y" arbitrary: y s)
  case 0
  then have "\<not> y < HEIGHT" by simp
  then show ?case by (subst (1 2) flush_rows.simps) simp
next
  case (Suc m)
  then have lt: "y < HEIGHT" by simp
  have "m = HEIGHT - (y + 1)" using Suc.hyps(2) by simp
  from Suc.hyps(1) [OF this] show ?case
    by (simp add: flush_rows_step [OF lt])
qed

lemma next_light_cursor:
  "cur_light_x (snd (next_light dev s)) = cur_light_x s + 1
   \<and> cur_light_y (snd (next_light dev s))
       = (if cur_light_x s + 1 > 8 then cur_light_y s + 1 else cur_light_y s)"
  by (simp add: next_light_def Let_def fb_flush_def split_beta HEIGHT_def
        flush_rows_cursor fb_set_pixel_cursor fb_clear_def fb_clear_cursor)

lemma next_light_continues:
  "fst (next_light dev s) = 0 \<Longrightarrow> cur_light_x s + 1 > 8 \<Longrightarrow> cur_light_y s + 1 \<le> 8"
  by (simp add: next_light_def Let_def HEIGHT_def split: if_splits)

lemma lights_after_Suc:
  assumes "lights_after dev (Suc n) s0 = Some s'"
  obtains t where "lights_after dev n s0 = Some t" "fst (next_light dev t) = 0"
    "s' = snd (next_light dev t)"
  using assms by (auto split: option.splits prod.splits if_splits)

lemma lights_after_cursor:
  assumes "cur_light_x s0 = 0" "cur_light_y s0 = 0" "lights_after dev n s0 = Some s"
  shows "cur_light_x s = int n \<and> cur_light_y s = max 0 (int n - 8) \<and> n \<le> 16"
  using assms(3)
proof (induction n arbitrary: s)
  case 0
  then show ?case using assms(1,2) by simp
next
  case (Suc n)
  from Suc.prems obtain t where t: "lights_after dev n s0 = Some t"
    "fst (next_light dev t) = 0" "s = snd (next_light dev t)"
    by (rule lights_after_Suc)
  from Suc.IH [OF t(1)] have ih: "cur_light_x t = int n" "cur_light_y t = max 0 (int n - 8)"
    by simp_all
  have x: "cur_light_x s = int n + 1"
    and y: "cur_light_y s = (if int n + 1 > 8 then max 0 (int n - 8) + 1 else max 0 (int n - 8))"
    using next_light_cursor [of dev t] by (simp_all add: t(3) ih)
  have "int n + 1 > 8 \<Longrightarrow> max 0 (int n - 8) + 1 \<le> 8"
    using next_light_continues [OF t(2)] by (simp add: ih)
  then have "n \<le> 15" by (cases "8 \<le> n") (simp_all add: max_def)
  with x y show ?case by (auto simp add: max_def)
qed

lemma lights_after_ends:
  assumes "cur_light_x s0 = 0" "cur_light_y s0 = 0"
  shows "lights_after dev 17 s0 = None"
proof (cases "lights_after dev 17 s0")
  case None
  then show ?thesis .
next
  case (Some s)
  from lights_after_cursor [OF assms this] show ?thesis by simp
qed

lemma first_frame:
  "next_light (\<lambda>fd h tx. 8) driver0
     = (0, driver0\<lparr>cur_light_x := 1, fb := [2, 0, 0, 0, 0, 0, 0, 0],
          spi_log := [[1, 0, 1, 0, 1, 0, 1, 2], [2, 0, 2, 0, 2, 0, 2, 0],
                      [3, 0, 3, 0, 3, 0, 3, 0], [4, 0, 4, 0, 4, 0, 4, 0],
                      [5, 0, 5, 0, 5, 0, 5, 0], [6, 0, 6, 0, 6, 0, 6, 0],
                      [7, 0, 7, 0, 7, 0, 7, 0], [8, 0, 8, 0, 8, 0, 8, 0]]\<rparr>)"
  by (simp add: next_light_def Let_def driver0_rows fb_clear_rows fb_set_pixel_def fb_flush_ok
        flush_txs_def row_tx_bytes HEIGHT_def WIDTH_def upt_rec)

text \<open>
  C9. On every run of the loop of \<^verbatim>\<open>main\<close> from a state with both cursors at 0: after
  \<open>n\<close> calls of \<^verbatim>\<open>next_light\<close> that returned 0, \<open>cur_light_x\<close> is \<open>n\<close>; the next call
  adds 1 to it, whatever it returns, so \<open>cur_light_x\<close> is never set back to 0; that
  call advances \<open>cur_light_y\<close> exactly when the new \<open>cur_light_x\<close> exceeds \<^verbatim>\<open>HEIGHT\<close>
  (8); and the run ends: \<open>cur_light_x\<close> never exceeds 17 and there is no seventeenth
  call that returns 0.
\<close>

theorem next_light_x_never_reset:
  assumes "cur_light_x s0 = 0" "cur_light_y s0 = 0" "lights_after dev n s0 = Some s"
  shows "cur_light_x s = int n
     \<and> cur_light_x (snd (next_light dev s)) = cur_light_x s + 1
     \<and> cur_light_x (snd (next_light dev s)) \<noteq> 0
     \<and> cur_light_y (snd (next_light dev s))
         = (if cur_light_x s + 1 > int HEIGHT then cur_light_y s + 1 else cur_light_y s)
     \<and> cur_light_x (snd (next_light dev s)) \<le> 17
     \<and> lights_after dev 17 s0 = None"
  using lights_after_cursor [OF assms] next_light_cursor [of dev s] lights_after_ends [OF assms(1,2)]
  by (simp add: HEIGHT_def)

theorem next_light_x_never_reset_witness:
  "cur_light_x driver0 = 0 \<and> cur_light_y driver0 = 0
   \<and> lights_after (\<lambda>fd h tx. 8) 1 driver0
       = Some (driver0\<lparr>cur_light_x := 1, fb := [2, 0, 0, 0, 0, 0, 0, 0],
          spi_log := [[1, 0, 1, 0, 1, 0, 1, 2], [2, 0, 2, 0, 2, 0, 2, 0],
                      [3, 0, 3, 0, 3, 0, 3, 0], [4, 0, 4, 0, 4, 0, 4, 0],
                      [5, 0, 5, 0, 5, 0, 5, 0], [6, 0, 6, 0, 6, 0, 6, 0],
                      [7, 0, 7, 0, 7, 0, 7, 0], [8, 0, 8, 0, 8, 0, 8, 0]]\<rparr>)
   \<and> cur_light_x (snd (next_light (\<lambda>fd h tx. 8)
        (driver0\<lparr>cur_light_x := 1, fb := [2, 0, 0, 0, 0, 0, 0, 0],
          spi_log := [[1, 0, 1, 0, 1, 0, 1, 2], [2, 0, 2, 0, 2, 0, 2, 0],
                      [3, 0, 3, 0, 3, 0, 3, 0], [4, 0, 4, 0, 4, 0, 4, 0],
                      [5, 0, 5, 0, 5, 0, 5, 0], [6, 0, 6, 0, 6, 0, 6, 0],
                      [7, 0, 7, 0, 7, 0, 7, 0], [8, 0, 8, 0, 8, 0, 8, 0]]\<rparr>))) = 2
   \<and> lights_after (\<lambda>fd h tx. 8) 17 driver0 = None"
proof -
  have one: "lights_after (\<lambda>fd h tx. 8) 1 driver0
       = Some (driver0\<lparr>cur_light_x := 1, fb := [2, 0, 0, 0, 0, 0, 0, 0],
          spi_log := [[1, 0, 1, 0, 1, 0, 1, 2], [2, 0, 2, 0, 2, 0, 2, 0],
                      [3, 0, 3, 0, 3, 0, 3, 0], [4, 0, 4, 0, 4, 0, 4, 0],
                      [5, 0, 5, 0, 5, 0, 5, 0], [6, 0, 6, 0, 6, 0, 6, 0],
                      [7, 0, 7, 0, 7, 0, 7, 0], [8, 0, 8, 0, 8, 0, 8, 0]]\<rparr>)"
    unfolding One_nat_def lights_after.simps by (simp add: first_frame)
  have c: "cur_light_x driver0 = 0" "cur_light_y driver0 = 0"
    by (simp_all add: driver0_def)
  show ?thesis
    using next_light_x_never_reset [OF c one] one c by simp
qed

end
